theory Spec2Isabelle
  imports Main "HOL-Library.AList" "HOL-Library.Char_ord" "HOL-Library.List_Lexorder"
begin

section \<open>Data model\<close>

subsection \<open>Versions and their comparator\<close>

text \<open>
  Modelled from the spec: the parsed version and its comparator (spec 3 and 4.1). The code
  uses the type \<open>semver.Version\<close> of a third-party library, which is not under src/.
  A version is a triple (major, minor, patch) plus pre-release identifiers; build metadata
  plays no part in comparisons and is left out. \<open>compare\<close> follows the standard precedence
  rules: major, then minor, then patch, numerically; a version with a pre-release tag is
  strictly less than the same triple without one; two pre-release tags are compared
  identifier by identifier (numeric ones numerically and below alphanumeric ones,
  alphanumeric ones textually, a longer tag above its own prefix).
\<close>

datatype PRVersion = PRNum nat | PRStr string

record SemVer =
  Major :: nat
  Minor :: nat
  Patch :: nat
  Pre :: "PRVersion list"

datatype ordering = LESS | EQUAL | GREATER

fun comparePR :: "PRVersion \<Rightarrow> PRVersion \<Rightarrow> ordering" where
  "comparePR (PRNum a) (PRNum b) = (if a < b then LESS else if a = b then EQUAL else GREATER)"
| "comparePR (PRNum a) (PRStr b) = LESS"
| "comparePR (PRStr a) (PRNum b) = GREATER"
| "comparePR (PRStr a) (PRStr b) = (if a < b then LESS else if a = b then EQUAL else GREATER)"

fun comparePre :: "PRVersion list \<Rightarrow> PRVersion list \<Rightarrow> ordering" where
  "comparePre [] [] = EQUAL"
| "comparePre [] (y # ys) = LESS"
| "comparePre (x # xs) [] = GREATER"
| "comparePre (x # xs) (y # ys) =
     (case comparePR x y of LESS \<Rightarrow> LESS | GREATER \<Rightarrow> GREATER | EQUAL \<Rightarrow> comparePre xs ys)"

definition compare :: "SemVer \<Rightarrow> SemVer \<Rightarrow> ordering" where
  "compare a b =
     (if Major a \<noteq> Major b then (if Major a < Major b then LESS else GREATER)
      else if Minor a \<noteq> Minor b then (if Minor a < Minor b then LESS else GREATER)
      else if Patch a \<noteq> Patch b then (if Patch a < Patch b then LESS else GREATER)
      else if Pre a = [] \<and> Pre b = [] then EQUAL
      else if Pre a = [] then GREATER
      else if Pre b = [] then LESS
      else comparePre (Pre a) (Pre b))"

subsection \<open>Packages\<close>

text \<open>
  Modelled from the spec: the struct \<open>util.Package\<close> and its methods \<open>HasCategory\<close> and
  \<open>IsNewer\<close> (spec 3, 4.1 and 4.4); util/package.go is not under src/. The fields are
  those that searchHandler and getPackageOutput read. \<open>Title\<close> and \<open>Icons\<close> are
  optional (a nil pointer, a nil slice); an icon descriptor is kept opaque.
\<close>

datatype Image = Image string

record Package =
  Name :: string
  Title :: "string option"
  Version :: string
  versionSemVer :: SemVer
  Description :: string
  Type :: string
  Categories :: "string list"
  Internal :: bool
  Icons :: "Image list option"

definition HasCategory :: "Package \<Rightarrow> string \<Rightarrow> bool" where
  "HasCategory p category = (category \<in> set (Categories p))"

definition IsNewer :: "Package \<Rightarrow> Package \<Rightarrow> bool" where
  "IsNewer p pp = (compare (versionSemVer p) (versionSemVer pp) = GREATER)"

section \<open>util/dataset.go\<close>

subsection \<open>The dataset struct\<close>

text \<open>
  The struct \<open>DataSet\<close> (lines 19-33). Streams are never inspected by the functions of
  this file, so a stream is kept opaque.
\<close>

datatype Stream = Stream string

record DataSet =
  ID :: string
  Title :: string
  Release :: string
  Type :: string
  IngestPipeline :: string
  Streams :: "Stream list"
  Package :: string
  Path :: string
  BasePath :: string

text \<open>
  The errors of NewDataset and Validate. The source builds them with \<open>fmt.Errorf\<close> and
  \<open>errors.Wrapf\<close>; the constructors carry the values the messages are built from and
  bear the names the spec gives them (spec 7).
  \<^item> \<open>GlobError\<close>: \<open>filepath.Glob\<close> failed (line 91);
  \<^item> \<open>InvalidIdentifier\<close>: "dataset name is not allowed to contain `-`" (line 95);
  \<^item> \<open>UnusedPipelines\<close>: "Package contains pipelines which are not used" (line 109);
  \<^item> \<open>MissingPipeline\<close>: "Defined ingest_pipeline does not exist" (line 118);
  \<^item> \<open>ManifestNotExist\<close>: "manifest does not exist for package" (line 57);
  \<^item> \<open>BuildingDataset\<close>: "error building dataset", wrapping the cause (line 72);
  \<^item> \<open>UnpackFailed\<close>: a failure of the configuration library itself.
\<close>

datatype error =
    GlobError
  | InvalidIdentifier string
  | UnusedPipelines "string list" string
  | MissingPipeline string
  | ManifestNotExist
  | UnpackFailed
  | BuildingDataset error

subsection \<open>Paths\<close>

text \<open>
  Go's \<open>filepath.Base\<close> on a system whose separator is the slash: the last element of the
  path, after trailing slashes are removed; \<open>"."\<close> for the empty path and \<open>"/"\<close> for a
  path of slashes only.
\<close>

definition Base :: "string \<Rightarrow> string" where
  "Base path =
     (if path = [] then ''.''
      else let stripped = rev (dropWhile (\<lambda>c. c = CHR ''/'') (rev path))
           in if stripped = [] then ''/''
              else rev (takeWhile (\<lambda>c. c \<noteq> CHR ''/'') (rev stripped)))"

subsection \<open>Validate\<close>

text \<open>
  The directory \<open>elasticsearch/ingest-pipeline\<close> of the dataset is an input of the model,
  and the two ways in which the code looks at it are kept apart. \<open>Glob\<close> is what
  \<open>filepath.Glob(pipelineDir/*)\<close> returns: \<open>None\<close> when it fails, otherwise the matched
  paths. \<open>StatIsNotExist name\<close> tells whether \<open>os.Stat\<close> on the file \<open>name\<close> of that
  directory returns an error for which \<open>os.IsNotExist\<close> holds. Nothing ties the two
  together: a listed path may be a link that leads nowhere, and a name may lead into a
  subdirectory.
\<close>

record PipelineDir =
  Glob :: "string list option"
  StatIsNotExist :: "string \<Rightarrow> bool"

text \<open>The loop of lines 100-105, which stops at the first default pipeline.\<close>

fun scanDefault :: "string list \<Rightarrow> string \<Rightarrow> string" where
  "scanDefault [] ingestPipeline = ingestPipeline"
| "scanDefault (path # paths) ingestPipeline =
     (if Base path = ''default.json'' \<or> Base path = ''default.yml'' then ''default''
      else scanDefault paths ingestPipeline)"

text \<open>
  \<open>Validate\<close> has a pointer receiver and may set the pipeline of the dataset (line 102):
  the model returns the dataset as the method leaves it, together with the error, if
  there is one.
\<close>

definition Validate :: "PipelineDir \<Rightarrow> DataSet \<Rightarrow> DataSet \<times> error option" where
  "Validate dir d =
     (case Glob dir of
        None \<Rightarrow> (d, Some GlobError)
      | Some paths \<Rightarrow>
          if CHR ''-'' \<in> set (ID d) then (d, Some (InvalidIdentifier (ID d)))
          else
            let d1 = (if IngestPipeline d = []
                      then d\<lparr>IngestPipeline := scanDefault paths (IngestPipeline d)\<rparr>
                      else d)
            in if IngestPipeline d1 = [] \<and> length paths > 0
               then (d1, Some (UnusedPipelines paths (ID d1)))
               else if IngestPipeline d1 \<noteq> [] \<and>
                       StatIsNotExist dir (IngestPipeline d1 @ ''.yml'') \<and>
                       StatIsNotExist dir (IngestPipeline d1 @ ''.json'')
               then (d1, Some (MissingPipeline (IngestPipeline d1)))
               else (d1, None))"

subsection \<open>NewDataset\<close>

text \<open>
  The manifest file of the dataset is an input of the model: it does not exist, or the
  configuration library cannot read it, or it yields the values of the configured fields
  (an absent key is the empty string or the empty list).
\<close>

record ManifestFields =
  m_id :: string
  m_title :: string
  m_release :: string
  m_type :: string
  m_ingest_pipeline :: string
  m_streams :: "Stream list"

datatype ManifestFile = NotExist | Unreadable | Manifest ManifestFields

text \<open>
  \<open>manifest.Unpack(d)\<close> (line 70) fills the configured fields of \<open>d\<close>, enforces the
  \<open>validate:"required"\<close> tags of the struct (title, type, streams) and then, as the
  comment of line 69 says, calls \<open>Validate\<close> on the dataset. The defaults of lines 75-82
  are set afterwards.
\<close>

definition Unpack :: "PipelineDir \<Rightarrow> ManifestFields \<Rightarrow> DataSet \<Rightarrow> error + DataSet" where
  "Unpack dir m d =
     (let d1 = d\<lparr>ID := m_id m, Title := m_title m, Release := m_release m, Type := m_type m,
                 IngestPipeline := m_ingest_pipeline m, Streams := m_streams m\<rparr>
      in if m_title m = [] \<or> m_type m = [] \<or> m_streams m = [] then Inl UnpackFailed
         else (case Validate dir d1 of
                 (d2, None) \<Rightarrow> Inr d2
               | (d2, Some err) \<Rightarrow> Inl err))"

definition NewDataset ::
  "ManifestFile \<Rightarrow> PipelineDir \<Rightarrow> string \<Rightarrow> Package \<Rightarrow> error + DataSet" where
  "NewDataset manifestFile dir basePath p =
     (case manifestFile of
        NotExist \<Rightarrow> Inl ManifestNotExist
      | Unreadable \<Rightarrow> Inl (BuildingDataset UnpackFailed)
      | Manifest m \<Rightarrow>
          let datasetPath = Base basePath;
              d = \<lparr>ID = [], Title = [], Release = [], Type = [], IngestPipeline = [],
                   Streams = [], Package = Name p, Path = datasetPath, BasePath = basePath\<rparr>
          in (case Unpack dir m d of
                Inl err \<Rightarrow> Inl (BuildingDataset err)
              | Inr d1 \<Rightarrow>
                  let d2 = (if ID d1 = [] then d1\<lparr>ID := Name p @ ''.'' @ datasetPath\<rparr> else d1);
                      d3 = (if Release d2 = [] then d2\<lparr>Release := ''beta''\<rparr> else d2)
                  in Inr d3))"

section \<open>The search handler\<close>

subsection \<open>Query parameters\<close>

text \<open>
  \<open>r.URL.Query()\<close> is a \<open>url.Values\<close>, a map from a parameter name to its values;
  \<open>Get\<close> returns the first value of a name, and the empty string when there is none.
\<close>

type_synonym Values = "(string \<times> string list) list"

definition Get :: "Values \<Rightarrow> string \<Rightarrow> string" where
  "Get query key = (case map_of query key of None \<Rightarrow> [] | Some [] \<Rightarrow> [] | Some (v # vs) \<Rightarrow> v)"

text \<open>
  Go's \<open>strconv.ParseBool\<close>: the value, and the error if there is one (the offending
  string); the value is false whenever there is an error.
\<close>

definition ParseBool :: "string \<Rightarrow> bool \<times> string option" where
  "ParseBool str =
     (if str \<in> {''1'', ''t'', ''T'', ''true'', ''TRUE'', ''True''} then (True, None)
      else if str \<in> {''0'', ''f'', ''F'', ''false'', ''FALSE'', ''False''} then (False, None)
      else (False, Some str))"

subsection \<open>Output records and collaborators\<close>

text \<open>
  An output record is a \<open>map[string]interface{}\<close>; the values stored in it are strings,
  the boolean of the internal marker and the icon list.
\<close>

datatype json = JString string | JBool bool | JImages "Image list"

type_synonym data = "string \<rightharpoonup> json"

text \<open>
  The functions the handler calls and src/ does not hold are parameters of the model:
  \<open>semver.New\<close> (the version parser of the third-party library, \<open>None\<close> when it returns an
  error), the methods \<open>HasKibanaVersion\<close>, \<open>GetDownloadPath\<close> and \<open>GetUrlPath\<close> of
  \<open>util.Package\<close>, and \<open>json.MarshalIndent\<close> (\<open>None\<close> when it returns an error).
\<close>

record deps =
  semver_New :: "string \<Rightarrow> SemVer option"
  HasKibanaVersion :: "Package \<Rightarrow> SemVer \<Rightarrow> bool"
  GetDownloadPath :: "Package \<Rightarrow> string"
  GetUrlPath :: "Package \<Rightarrow> string"
  MarshalIndent :: "data list \<Rightarrow> string option"

text \<open>
  What the handler answers with \<open>notFound\<close>: an invalid Kibana version (line 38), a failure
  of \<open>util.GetPackages\<close> (line 72) or of the encoder (line 128). \<open>IndexOutOfRange\<close> is the
  panic of an index expression on a slice that is too short (line 154).
\<close>

datatype searchError =
    InvalidKibanaVersion string
  | ProblemFetchingPackages
  | MarshalFailed
  | IndexOutOfRange

subsection \<open>Reading the query (lines 25-68)\<close>

record Filter =
  kibanaVersion :: "SemVer option"
  category :: string
  packageQuery :: string
  all :: bool
  internal :: bool

definition readQuery :: "deps \<Rightarrow> Values \<Rightarrow> searchError + Filter" where
  "readQuery ext query =
     (if length query > 0 then
        (case (let v = Get query ''kibana''
               in if v \<noteq> [] then (case semver_New ext v of
                                      None \<Rightarrow> Inl (InvalidKibanaVersion v)
                                    | Some k \<Rightarrow> Inr (Some k))
                  else Inr None) of
           Inl err \<Rightarrow> Inl err
         | Inr kibana \<Rightarrow>
             Inr \<lparr>kibanaVersion = kibana,
                  category = (let v = Get query ''category'' in if v \<noteq> [] then v else []),
                  packageQuery = (let v = Get query ''package'' in if v \<noteq> [] then v else []),
                  all = (let v = Get query ''all'' in if v \<noteq> [] then fst (ParseBool v) else False),
                  internal = (let v = Get query ''internal''
                              in if v \<noteq> [] then fst (ParseBool v) else False)\<rparr>)
      else Inr \<lparr>kibanaVersion = None, category = [], packageQuery = [], all = False,
                internal = False\<rparr>)"

subsection \<open>Selecting the packages (lines 75-124)\<close>

text \<open>
  \<open>packagesList\<close> is a map from a package name to a map from a version string to a
  package. It is modelled as an association list of association lists; the order of the
  list stands for one of the orders in which Go may iterate over the map.
\<close>

type_synonym packagesList = "(string \<times> (string \<times> Package) list) list"

definition lookupPackage :: "packagesList \<Rightarrow> string \<Rightarrow> string \<Rightarrow> Package option" where
  "lookupPackage pl n v = (case map_of pl n of None \<Rightarrow> None | Some versions \<Rightarrow> map_of versions v)"

text \<open>\<open>delete(packagesList[n], v)\<close>; deleting from a map that is not there does nothing.\<close>

definition deletePackage :: "string \<Rightarrow> string \<Rightarrow> packagesList \<Rightarrow> packagesList" where
  "deletePackage n v pl =
     (case map_of pl n of
        None \<Rightarrow> pl
      | Some versions \<Rightarrow> AList.update n (AList.delete v versions) pl)"

text \<open>The pairs (name, version) of a list, in the order of its iteration.\<close>

definition entries :: "packagesList \<Rightarrow> (string \<times> string) list" where
  "entries pl = concat (map (\<lambda>(n, versions). map (\<lambda>(v, pp). (n, v)) versions) pl)"

text \<open>
  The body of the loops of lines 105-117 at one entry. An entry that an earlier iteration
  has deleted is not visited.
\<close>

definition dropOlder :: "Package \<Rightarrow> (string \<times> string) \<Rightarrow> packagesList \<Rightarrow> packagesList" where
  "dropOlder p entry pl =
     (case lookupPackage pl (fst entry) (snd entry) of
        None \<Rightarrow> pl
      | Some pp \<Rightarrow>
          if Name pp = Name p then
            (if IsNewer pp p then pl else deletePackage (Name pp) (Version pp) pl)
          else pl)"

definition dropOlderVersions :: "Package \<Rightarrow> packagesList \<Rightarrow> packagesList" where
  "dropOlderVersions p pl = fold (dropOlder p) (entries pl) pl"

text \<open>Lines 120-123.\<close>

definition addPackage :: "Package \<Rightarrow> packagesList \<Rightarrow> packagesList" where
  "addPackage p pl =
     (let pl1 = (if map_of pl (Name p) = None then AList.update (Name p) [] pl else pl)
      in case map_of pl1 (Name p) of
           None \<Rightarrow> pl1
         | Some versions \<Rightarrow> AList.update (Name p) (AList.update (Version p) p versions) pl1)"

text \<open>The four \<open>continue\<close> statements of lines 81-101.\<close>

definition skipPackage :: "deps \<Rightarrow> Filter \<Rightarrow> Package \<Rightarrow> bool" where
  "skipPackage ext f p =
     (if Internal p \<and> \<not> internal f then True
      else if category f \<noteq> [] \<and> \<not> HasCategory p (category f) then True
      else if (case kibanaVersion f of None \<Rightarrow> False | Some k \<Rightarrow> \<not> HasKibanaVersion ext p k)
      then True
      else if packageQuery f \<noteq> [] \<and> packageQuery f \<noteq> Name p then True
      else False)"

definition addToList :: "deps \<Rightarrow> Filter \<Rightarrow> packagesList \<Rightarrow> Package \<Rightarrow> packagesList" where
  "addToList ext f pl p =
     (if skipPackage ext f p then pl
      else addPackage p (if \<not> all f then dropOlderVersions p pl else pl))"

definition selectPackages :: "deps \<Rightarrow> Filter \<Rightarrow> Package list \<Rightarrow> packagesList" where
  "selectPackages ext f packages = foldl (addToList ext f) [] packages"

subsection \<open>getPackageOutput (lines 138-181)\<close>

text \<open>
  The separator of the composite keys is the one-character string \<open>"@"\<close>; \<open>Split\<close> is
  Go's \<open>strings.Split\<close> for a separator of one character.
\<close>

definition separator :: char where
  "separator = CHR ''@''"

fun Split :: "string \<Rightarrow> char \<Rightarrow> string list" where
  "Split [] sep = [[]]"
| "Split (c # cs) sep =
     (if c = sep then [] # Split cs sep
      else (case Split cs sep of [] \<Rightarrow> [[c]] | part # parts \<Rightarrow> (c # part) # parts))"

text \<open>Lines 142-147: one key per version of every name.\<close>

definition compositeKeys :: "packagesList \<Rightarrow> string list" where
  "compositeKeys pl =
     concat (map (\<lambda>(key, k). map (\<lambda>(v, pp). key @ [separator] @ v) k) pl)"

text \<open>The zero value of the struct, which a lookup of a missing key returns.\<close>

definition zeroPackage :: Package where
  "zeroPackage =
     \<lparr>Name = [], Title = None, Version = [],
      versionSemVer = \<lparr>Major = 0, Minor = 0, Patch = 0, Pre = []\<rparr>,
      Description = [], Type = [], Categories = [], Internal = False, Icons = None\<rparr>"

text \<open>Lines 155-171: the record of one package.\<close>

definition packageData :: "deps \<Rightarrow> Package \<Rightarrow> data" where
  "packageData ext m =
     (let data0 = [''name'' \<mapsto> JString (Name m),
                   ''description'' \<mapsto> JString (Description m),
                   ''version'' \<mapsto> JString (Version m),
                   ''type'' \<mapsto> JString (Package.Type m),
                   ''download'' \<mapsto> JString (GetDownloadPath ext m),
                   ''path'' \<mapsto> JString (GetUrlPath ext m)];
          data1 = (case Package.Title m of
                     None \<Rightarrow> data0
                   | Some t \<Rightarrow> data0(''title'' \<mapsto> JString t));
          data2 = (case Icons m of
                     None \<Rightarrow> data1
                   | Some i \<Rightarrow> data1(''icons'' \<mapsto> JImages i));
          data3 = (if Internal m then data2(''internal'' \<mapsto> JBool True) else data2)
      in data3)"

text \<open>The loop of lines 152-173 over the sorted keys.\<close>

fun outputOf :: "deps \<Rightarrow> packagesList \<Rightarrow> string list \<Rightarrow> searchError + data list" where
  "outputOf ext pl [] = Inr []"
| "outputOf ext pl (k # keys) =
     (case Split k separator of
        part0 # part1 # rest \<Rightarrow>
          (let m = (case lookupPackage pl part0 part1 of None \<Rightarrow> zeroPackage | Some pp \<Rightarrow> pp)
           in case outputOf ext pl keys of
                Inl err \<Rightarrow> Inl err
              | Inr output \<Rightarrow> Inr (packageData ext m # output))
      | _ \<Rightarrow> Inl IndexOutOfRange)"

text \<open>Lines 140-173: the records in the order of the sorted keys.\<close>

definition packageRecords :: "deps \<Rightarrow> packagesList \<Rightarrow> searchError + data list" where
  "packageRecords ext pl = outputOf ext pl (sort (compositeKeys pl))"

definition getPackageOutput :: "deps \<Rightarrow> packagesList \<Rightarrow> searchError + string" where
  "getPackageOutput ext pl =
     (case packageRecords ext pl of
        Inl err \<Rightarrow> Inl err
      | Inr output \<Rightarrow>
          if length output = 0 then Inr ''[]''
          else (case MarshalIndent ext output of
                  None \<Rightarrow> Inl MarshalFailed
                | Some bytes \<Rightarrow> Inr bytes))"

subsection \<open>searchHandler (lines 21-136)\<close>

text \<open>
  \<open>loaded\<close> is what \<open>util.GetPackages\<close> returns: \<open>None\<close> for an error, otherwise the
  packages in the order of the loader. The result is the error handed to \<open>notFound\<close> or
  the body of the response.
\<close>

definition searchHandler :: "deps \<Rightarrow> Values \<Rightarrow> Package list option \<Rightarrow> searchError + string" where
  "searchHandler ext query loaded =
     (case readQuery ext query of
        Inl err \<Rightarrow> Inl err
      | Inr f \<Rightarrow>
          (case loaded of
             None \<Rightarrow> Inl ProblemFetchingPackages
           | Some packages \<Rightarrow> getPackageOutput ext (selectPackages ext f packages)))"

subsection \<open>Notions used in the statements\<close>

text \<open>
  The packages stored in a list, and its entries as triples (name key, version key,
  package), in the order of iteration.
\<close>

definition packagesOf :: "packagesList \<Rightarrow> Package list" where
  "packagesOf pl = concat (map (\<lambda>(n, versions). map snd versions) pl)"

definition triples :: "packagesList \<Rightarrow> (string \<times> string \<times> Package) list" where
  "triples pl = concat (map (\<lambda>(n, versions). map (\<lambda>(v, pp). (n, v, pp)) versions) pl)"

text \<open>The composite key of a package: name, separator, version string.\<close>

definition compositeKey :: "Package \<Rightarrow> string" where
  "compositeKey p = Name p @ [separator] @ Version p"

text \<open>
  The name and the version string of an output record, and the composite key they form.
\<close>

definition nameOf :: "data \<Rightarrow> string" where
  "nameOf r = (case r ''name'' of Some (JString n) \<Rightarrow> n | _ \<Rightarrow> [])"

definition versionOf :: "data \<Rightarrow> string" where
  "versionOf r = (case r ''version'' of Some (JString v) \<Rightarrow> v | _ \<Rightarrow> [])"

definition recordKey :: "data \<Rightarrow> string" where
  "recordKey r = nameOf r @ [separator] @ versionOf r"

text \<open>
  The supplied packages that pass the filters and bear a given name and version string,
  in the order of the loader.
\<close>

definition candidates :: "deps \<Rightarrow> Filter \<Rightarrow> string \<Rightarrow> string \<Rightarrow> Package list \<Rightarrow> Package list" where
  "candidates ext f n v packages =
     filter (\<lambda>p. \<not> skipPackage ext f p \<and> Name p = n \<and> Version p = v) packages"

text \<open>
  A list is consistent when it is a map at both levels (no key occurs twice) and every
  package is stored under its own name and version, as line 123 stores it.
\<close>

definition consistent :: "packagesList \<Rightarrow> bool" where
  "consistent pl =
     (distinct (map fst pl) \<and>
      (\<forall>(n, versions) \<in> set pl.
         distinct (map fst versions) \<and>
         (\<forall>(v, p) \<in> set versions. Name p = n \<and> Version p = v)))"

text \<open>
  \<open>sameMap pl' pl\<close>: the list \<open>pl'\<close> is a map at both levels and has the entries of
  \<open>pl\<close>; it is the same Go map, iterated in another order.
\<close>

definition sameMap :: "packagesList \<Rightarrow> packagesList \<Rightarrow> bool" where
  "sameMap pl' pl =
     (distinct (map fst pl') \<and>
      (\<forall>(n, versions) \<in> set pl'. distinct (map fst versions)) \<and>
      set (triples pl') = set (triples pl))"

section \<open>Example inputs\<close>

text \<open>
  Concrete collaborators for the examples below: a parser for version strings of the
  form MAJOR.MINOR.PATCH (decimal, no leading zero, no pre-release or build part), a
  platform test that accepts every package, paths built from name and version, and an
  encoder that renders the names of the records.
\<close>

definition isNumber :: "string \<Rightarrow> bool" where
  "isNumber s =
     (s \<noteq> [] \<and> (\<forall>c \<in> set s. CHR ''0'' \<le> c \<and> c \<le> CHR ''9'') \<and>
      (length s = 1 \<or> hd s \<noteq> CHR ''0''))"

definition toNat :: "string \<Rightarrow> nat" where
  "toNat s = foldl (\<lambda>n c. 10 * n + (of_char c - 48)) 0 s"

definition parseRelease :: "string \<Rightarrow> SemVer option" where
  "parseRelease s =
     (case Split s (CHR ''.'') of
        [a, b, c] \<Rightarrow>
          if isNumber a \<and> isNumber b \<and> isNumber c
          then Some \<lparr>Major = toNat a, Minor = toNat b, Patch = toNat c, Pre = []\<rparr>
          else None
      | _ \<Rightarrow> None)"

definition exampleDeps :: deps where
  "exampleDeps =
     \<lparr>semver_New = parseRelease,
      HasKibanaVersion = (\<lambda>p k. True),
      GetDownloadPath = (\<lambda>p. ''/package/'' @ Name p @ ''-'' @ Version p @ ''.tar.gz''),
      GetUrlPath = (\<lambda>p. ''/package/'' @ Name p @ ''-'' @ Version p),
      MarshalIndent = (\<lambda>output. Some (concat (map (\<lambda>r. nameOf r @ '' '') output)))\<rparr>"

definition examplePackage :: "string \<Rightarrow> string \<Rightarrow> Package" where
  "examplePackage n v =
     \<lparr>Name = n, Title = None, Version = v,
      versionSemVer = (case parseRelease v of
                         None \<Rightarrow> \<lparr>Major = 0, Minor = 0, Patch = 0, Pre = []\<rparr>
                       | Some sv \<Rightarrow> sv),
      Description = [], Type = ''integration'', Categories = [''logs''],
      Internal = False, Icons = None\<rparr>"

definition defaultFilter :: Filter where
  "defaultFilter =
     \<lparr>kibanaVersion = None, category = [], packageQuery = [], all = False, internal = False\<rparr>"


text \<open>
  A pipeline directory in which \<open>Glob\<close> matches the given paths and \<open>os.Stat\<close> finds the
  given names and no others.
\<close>

definition examplePipelineDir :: "string list \<Rightarrow> string list \<Rightarrow> PipelineDir" where
  "examplePipelineDir paths found =
     \<lparr>Glob = Some paths, StatIsNotExist = (\<lambda>name. name \<notin> set found)\<rparr>"

definition exampleManifest :: ManifestFields where
  "exampleManifest =
     \<lparr>m_id = [], m_title = ''Logs'', m_release = [], m_type = ''logs'',
      m_ingest_pipeline = [], m_streams = [Stream ''logs'']\<rparr>"

section \<open>Dataset validation\<close>





text \<open>
  Claim C10. The claim says that a dataset without an explicit id in a package whose name
  contains a hyphen always fails validation with InvalidIdentifier. In the code the
  validation runs while the manifest is unpacked, when the id is still empty, and the
  default id is set afterwards: for the package my-package and the dataset directory
  logs, NewDataset succeeds and returns a dataset whose id is my-package.logs, a dataset
  that Validate itself rejects.
\<close>

theorem NewDataset_default_id_unchecked:
  "NewDataset (Manifest exampleManifest) (examplePipelineDir [] [])
     ''/packages/my-package-1.0.0/dataset/logs'' (examplePackage ''my-package'' ''1.0.0'')
   = Inr \<lparr>ID = ''my-package.logs'', Title = ''Logs'', Release = ''beta'', Type = ''logs'',
          IngestPipeline = [], Streams = [Stream ''logs''], Package = ''my-package'',
          Path = ''logs'', BasePath = ''/packages/my-package-1.0.0/dataset/logs''\<rparr>
   \<and> Validate (examplePipelineDir [] [])
       \<lparr>ID = ''my-package.logs'', Title = ''Logs'', Release = ''beta'', Type = ''logs'',
        IngestPipeline = [], Streams = [Stream ''logs''], Package = ''my-package'',
        Path = ''logs'', BasePath = ''/packages/my-package-1.0.0/dataset/logs''\<rparr>
     = (\<lparr>ID = ''my-package.logs'', Title = ''Logs'', Release = ''beta'', Type = ''logs'',
         IngestPipeline = [], Streams = [Stream ''logs''], Package = ''my-package'',
         Path = ''logs'', BasePath = ''/packages/my-package-1.0.0/dataset/logs''\<rparr>,
        Some (InvalidIdentifier ''my-package.logs''))"
  by (simp add: NewDataset_def Unpack_def Validate_def exampleManifest_def examplePackage_def
      examplePipelineDir_def Base_def Let_def)

section \<open>Reading the query\<close>

lemma ParseBool_error_false: "snd (ParseBool v) \<noteq> None \<Longrightarrow> fst (ParseBool v) = False"
  unfolding ParseBool_def by (simp split: if_splits)

lemma ParseBool_yes: "ParseBool ''yes'' = (False, Some ''yes'')"
  by (simp add: ParseBool_def)

lemma readQuery_kibana:
  "readQuery ext query =
     (if Get query ''kibana'' \<noteq> [] \<and> semver_New ext (Get query ''kibana'') = None
      then Inl (InvalidKibanaVersion (Get query ''kibana''))
      else Inr \<lparr>kibanaVersion = (if Get query ''kibana'' \<noteq> []
                                 then semver_New ext (Get query ''kibana'') else None),
                category = Get query ''category'',
                packageQuery = Get query ''package'',
                all = (Get query ''all'' \<noteq> [] \<and> fst (ParseBool (Get query ''all''))),
                internal = (Get query ''internal'' \<noteq> []
                            \<and> fst (ParseBool (Get query ''internal'')))\<rparr>)"
proof (cases "query = []")
  case True
  then show ?thesis by (simp add: readQuery_def Get_def)
next
  case False
  show ?thesis
  proof (cases "Get query ''kibana'' = []")
    case True
    with False show ?thesis by (simp add: readQuery_def Let_def)
  next
    case nonempty: False
    show ?thesis
    proof (cases "semver_New ext (Get query ''kibana'')")
      case None
      with False nonempty show ?thesis by (simp add: readQuery_def Let_def)
    next
      case (Some k)
      with False nonempty show ?thesis by (simp add: readQuery_def Let_def)
    qed
  qed
qed

text \<open>
  Claim C5, as amended. The handler reads the first value of the kibana parameter. When
  that value is a non-empty string that the version parser rejects, reading the query
  fails and the handler answers with the error and no result set, whatever the loader
  returns. When that value is empty the query is read with no platform filter, and when
  it is parsable the query is read with the parsed version as the filter.
\<close>

theorem searchHandler_kibana_version:
  "(Get query ''kibana'' \<noteq> [] \<and> semver_New ext (Get query ''kibana'') = None
      \<longrightarrow> readQuery ext query = Inl (InvalidKibanaVersion (Get query ''kibana''))
          \<and> searchHandler ext query loaded = Inl (InvalidKibanaVersion (Get query ''kibana'')))
   \<and> (Get query ''kibana'' = []
      \<longrightarrow> (\<exists>f. readQuery ext query = Inr f \<and> kibanaVersion f = None))
   \<and> (Get query ''kibana'' \<noteq> [] \<and> semver_New ext (Get query ''kibana'') = Some k
      \<longrightarrow> (\<exists>f. readQuery ext query = Inr f \<and> kibanaVersion f = Some k))"
  by (simp add: readQuery_kibana searchHandler_def)

theorem searchHandler_kibana_version_witness:
  "searchHandler exampleDeps [(''kibana'', [''seven''])]
     (Some [examplePackage ''mysql'' ''1.0.0'']) = Inl (InvalidKibanaVersion ''seven'')
   \<and> (\<exists>f. readQuery exampleDeps [(''kibana'', [''''])] = Inr f \<and> kibanaVersion f = None)
   \<and> (\<exists>f. readQuery exampleDeps [(''kibana'', [''7.0.0''])] = Inr f
          \<and> kibanaVersion f = Some \<lparr>Major = 7, Minor = 0, Patch = 0, Pre = []\<rparr>)"
proof -
  have a: "Get [(''kibana'', [''seven''])] ''kibana'' = ''seven''"
    "Get [(''kibana'', [''''])] ''kibana'' = []"
    "Get [(''kibana'', [''7.0.0''])] ''kibana'' = ''7.0.0''"
    by (simp_all add: Get_def)
  have b: "semver_New exampleDeps ''seven'' = None" by code_simp
  have c: "semver_New exampleDeps ''7.0.0'' = Some \<lparr>Major = 7, Minor = 0, Patch = 0, Pre = []\<rparr>"
    by code_simp
  show ?thesis
    using searchHandler_kibana_version [of "[(''kibana'', [''seven''])]" exampleDeps
        "Some [examplePackage ''mysql'' ''1.0.0'']"]
      searchHandler_kibana_version [of "[(''kibana'', [''''])]" exampleDeps]
      searchHandler_kibana_version [of "[(''kibana'', [''7.0.0''])]" exampleDeps _
        "\<lparr>Major = 7, Minor = 0, Patch = 0, Pre = []\<rparr>"]
    by (simp add: a b c)
qed

text \<open>
  Claim C5, counterexample. A kibana parameter that is present with an empty value is
  ignored, and so is an unparsable value that follows a parsable one: in both cases the
  handler answers with a result set.
\<close>

theorem unparsable_kibana_value_ignored:
  "semver_New exampleDeps '''' = None
   \<and> searchHandler exampleDeps [(''kibana'', [''''])] (Some [examplePackage ''mysql'' ''1.0.0''])
     = Inr ''mysql ''
   \<and> semver_New exampleDeps ''seven'' = None
   \<and> searchHandler exampleDeps [(''kibana'', [''7.0.0'', ''seven''])]
       (Some [examplePackage ''mysql'' ''1.0.0''])
     = Inr ''mysql ''"
  by code_simp

text \<open>
  Claim C9. A query whose kibana parameter is absent or parsable is never rejected, and a
  value of the parameter all (of the parameter internal) that ParseBool does not accept
  leaves the flag false.
\<close>

theorem readQuery_malformed_flags:
  assumes "Get query ''kibana'' = [] \<or> semver_New ext (Get query ''kibana'') \<noteq> None"
  shows "\<exists>f. readQuery ext query = Inr f
           \<and> (snd (ParseBool (Get query ''all'')) \<noteq> None \<longrightarrow> \<not> all f)
           \<and> (snd (ParseBool (Get query ''internal'')) \<noteq> None \<longrightarrow> \<not> internal f)"
proof (cases "query = []")
  case True
  then show ?thesis by (simp add: readQuery_def)
next
  case False
  from assms show ?thesis
  proof
    assume "Get query ''kibana'' = []"
    with False show ?thesis
      by (simp add: readQuery_def Let_def ParseBool_error_false)
  next
    assume "semver_New ext (Get query ''kibana'') \<noteq> None"
    then obtain k where "semver_New ext (Get query ''kibana'') = Some k" by blast
    with False show ?thesis
      by (simp add: readQuery_def Let_def ParseBool_error_false)
  qed
qed

theorem readQuery_malformed_flags_witness:
  "\<exists>f. readQuery exampleDeps [(''all'', [''yes'']), (''internal'', [''yes''])] = Inr f
        \<and> \<not> all f \<and> \<not> internal f"
proof -
  have a: "Get [(''all'', [''yes'']), (''internal'', [''yes''])] ''kibana'' = []
           \<or> semver_New exampleDeps
                (Get [(''all'', [''yes'']), (''internal'', [''yes''])] ''kibana'') \<noteq> None"
    by (simp add: Get_def)
  have b: "Get [(''all'', [''yes'']), (''internal'', [''yes''])] ''all'' = ''yes''"
    "Get [(''all'', [''yes'']), (''internal'', [''yes''])] ''internal'' = ''yes''"
    by (simp_all add: Get_def)
  show ?thesis
    using readQuery_malformed_flags [OF a] by (simp add: b ParseBool_yes)
qed

section \<open>Selected packages\<close>

lemma set_update_subset: "set (AList.update k v al) \<subseteq> insert (k, v) (set al)"
  by (induction al) auto

lemma set_delete_subset: "set (AList.delete k al) \<subseteq> set al"
  by (induction al) auto

lemma packagesOf_Nil: "packagesOf [] = []"
  by (simp add: packagesOf_def)

lemma set_packagesOf: "set (packagesOf pl) = {p. \<exists>n versions v. (n, versions) \<in> set pl \<and> (v, p) \<in> set versions}"
  by (force simp: packagesOf_def)

lemma set_triples: "set (triples pl) = {(n, v, p). \<exists>versions. (n, versions) \<in> set pl \<and> (v, p) \<in> set versions}"
  by (force simp: triples_def)

lemma packagesOf_triples: "set (packagesOf pl) = (\<lambda>(n, v, p). p) ` set (triples pl)"
  by (force simp: set_packagesOf set_triples)

lemma lookupPackage_mem: "lookupPackage pl n v = Some p \<Longrightarrow> p \<in> set (packagesOf pl)"
  by (auto simp: lookupPackage_def set_packagesOf split: option.splits dest!: map_of_SomeD)

lemma packagesOf_deletePackage: "set (packagesOf (deletePackage n v pl)) \<subseteq> set (packagesOf pl)"
proof (cases "map_of pl n")
  case None
  then show ?thesis by (simp add: deletePackage_def)
next
  case (Some versions)
  then have mem: "(n, versions) \<in> set pl" by (rule map_of_SomeD)
  show ?thesis
  proof
    fix p assume "p \<in> set (packagesOf (deletePackage n v pl))"
    then obtain n' vs' v' where a: "(n', vs') \<in> set (AList.update n (AList.delete v versions) pl)"
      and b: "(v', p) \<in> set vs'"
      using Some by (auto simp: deletePackage_def set_packagesOf)
    from a set_update_subset have "(n', vs') = (n, AList.delete v versions) \<or> (n', vs') \<in> set pl"
      by fastforce
    then show "p \<in> set (packagesOf pl)"
    proof
      assume "(n', vs') = (n, AList.delete v versions)"
      with b set_delete_subset have "(v', p) \<in> set versions" by fastforce
      with mem show ?thesis by (auto simp: set_packagesOf)
    next
      assume "(n', vs') \<in> set pl"
      with b show ?thesis by (auto simp: set_packagesOf)
    qed
  qed
qed

lemma packagesOf_dropOlder: "set (packagesOf (dropOlder p e pl)) \<subseteq> set (packagesOf pl)"
  using packagesOf_deletePackage by (auto simp: dropOlder_def split: option.splits)

lemma packagesOf_fold_dropOlder: "set (packagesOf (fold (dropOlder p) es pl)) \<subseteq> set (packagesOf pl)"
proof (induction es arbitrary: pl)
  case Nil
  then show ?case by simp
next
  case (Cons e es)
  have "set (packagesOf (fold (dropOlder p) es (dropOlder p e pl))) \<subseteq> set (packagesOf (dropOlder p e pl))"
    by (rule Cons.IH)
  also have "\<dots> \<subseteq> set (packagesOf pl)" by (rule packagesOf_dropOlder)
  finally show ?case by simp
qed

lemma packagesOf_dropOlderVersions: "set (packagesOf (dropOlderVersions p pl)) \<subseteq> set (packagesOf pl)"
  unfolding dropOlderVersions_def by (rule packagesOf_fold_dropOlder)

lemma addPackage_eq:
  "addPackage p pl =
     AList.update (Name p)
       (AList.update (Version p) p (case map_of pl (Name p) of None \<Rightarrow> [] | Some versions \<Rightarrow> versions)) pl"
  by (cases "map_of pl (Name p)") (simp_all add: addPackage_def Let_def update_conv')

lemma packagesOf_addPackage: "set (packagesOf (addPackage p pl)) \<subseteq> insert p (set (packagesOf pl))"
proof
  fix q assume "q \<in> set (packagesOf (addPackage p pl))"
  then obtain n vs v where a: "(n, vs) \<in> set (addPackage p pl)" and b: "(v, q) \<in> set vs"
    by (auto simp: set_packagesOf)
  let ?old = "case map_of pl (Name p) of None \<Rightarrow> [] | Some versions \<Rightarrow> versions"
  from a set_update_subset have "(n, vs) = (Name p, AList.update (Version p) p ?old) \<or> (n, vs) \<in> set pl"
    unfolding addPackage_eq by fastforce
  then show "q \<in> insert p (set (packagesOf pl))"
  proof
    assume "(n, vs) = (Name p, AList.update (Version p) p ?old)"
    with b set_update_subset have "(v, q) = (Version p, p) \<or> (v, q) \<in> set ?old" by fastforce
    then show ?thesis
    proof
      assume "(v, q) = (Version p, p)"
      then show ?thesis by simp
    next
      assume old: "(v, q) \<in> set ?old"
      then obtain versions where "map_of pl (Name p) = Some versions" and "(v, q) \<in> set versions"
        by (cases "map_of pl (Name p)") auto
      then have "(Name p, versions) \<in> set pl" by (auto dest: map_of_SomeD)
      with \<open>(v, q) \<in> set versions\<close> show ?thesis by (auto simp: set_packagesOf)
    qed
  next
    assume "(n, vs) \<in> set pl"
    with b show ?thesis by (auto simp: set_packagesOf)
  qed
qed

lemma packagesOf_addToList:
  "set (packagesOf (addToList ext f pl p)) \<subseteq> set (packagesOf pl) \<union> {q. q = p \<and> \<not> skipPackage ext f p}"
proof (cases "skipPackage ext f p")
  case True
  then show ?thesis by (simp add: addToList_def)
next
  case False
  have "set (packagesOf (addPackage p (if \<not> all f then dropOlderVersions p pl else pl)))
        \<subseteq> insert p (set (packagesOf (if \<not> all f then dropOlderVersions p pl else pl)))"
    by (rule packagesOf_addPackage)
  also have "\<dots> \<subseteq> insert p (set (packagesOf pl))"
    using packagesOf_dropOlderVersions by auto
  finally show ?thesis using False by (auto simp: addToList_def)
qed

lemma packagesOf_foldl:
  "set (packagesOf (foldl (addToList ext f) pl packages))
   \<subseteq> set (packagesOf pl) \<union> {q \<in> set packages. \<not> skipPackage ext f q}"
proof (induction packages arbitrary: pl)
  case Nil
  then show ?case by simp
next
  case (Cons p packages)
  have "set (packagesOf (foldl (addToList ext f) (addToList ext f pl p) packages))
        \<subseteq> set (packagesOf (addToList ext f pl p)) \<union> {q \<in> set packages. \<not> skipPackage ext f q}"
    by (rule Cons.IH)
  with packagesOf_addToList [of ext f pl p] show ?case by auto
qed

lemma packagesOf_selectPackages:
  "set (packagesOf (selectPackages ext f packages)) \<subseteq> {q \<in> set packages. \<not> skipPackage ext f q}"
  using packagesOf_foldl [of ext f "[]" packages]
  by (simp add: selectPackages_def packagesOf_Nil)

section \<open>Composite keys and records\<close>

lemma Split_not_Nil: "Split s sep \<noteq> []"
  by (induction s) (auto split: list.splits)

lemma Split_no_sep: "sep \<notin> set s \<Longrightarrow> Split s sep = [s]"
  by (induction s) auto

lemma Split_append: "sep \<notin> set a \<Longrightarrow> Split (a @ sep # b) sep = a # Split b sep"
  by (induction a) auto

lemma Split_two: "\<exists>part0 part1 rest. Split (a @ sep # b) sep = part0 # part1 # rest"
proof (induction a)
  case Nil
  obtain x xs where "Split b sep = x # xs"
    using Split_not_Nil by (cases "Split b sep") auto
  then show ?case by simp
next
  case (Cons c a)
  then obtain part0 part1 rest where eq: "Split (a @ sep # b) sep = part0 # part1 # rest"
    by blast
  show ?case
  proof (cases "c = sep")
    case True
    with eq show ?thesis by simp
  next
    case False
    with eq show ?thesis by simp
  qed
qed

lemma compositeKeys_triples:
  "compositeKeys pl = map (\<lambda>(n, v, p). n @ [separator] @ v) (triples pl)"
  by (induction pl) (auto simp: compositeKeys_def triples_def)

lemma entries_triples: "entries pl = map (\<lambda>(n, v, p). (n, v)) (triples pl)"
  by (induction pl) (auto simp: entries_def triples_def)

lemma compositeKeys_entries: "compositeKeys pl = map (\<lambda>(n, v). n @ [separator] @ v) (entries pl)"
  by (simp add: compositeKeys_triples entries_triples split_def)

lemma outputOf_total:
  assumes "\<forall>k \<in> set keys. \<exists>a b. k = a @ separator # b"
  shows "\<exists>output. outputOf ext pl keys = Inr output \<and> length output = length keys
          \<and> (\<forall>r \<in> set output. \<exists>m. r = packageData ext m \<and> (m = zeroPackage \<or> m \<in> set (packagesOf pl)))"
  using assms
proof (induction keys)
  case Nil
  then show ?case by simp
next
  case (Cons k keys)
  then obtain rs where out: "outputOf ext pl keys = Inr rs" "length rs = length keys"
    "\<forall>r \<in> set rs. \<exists>m. r = packageData ext m \<and> (m = zeroPackage \<or> m \<in> set (packagesOf pl))"
    by auto
  from Cons.prems obtain a b where "k = a @ separator # b" by auto
  then obtain part0 part1 rest where sp: "Split k separator = part0 # part1 # rest"
    using Split_two by blast
  let ?m = "case lookupPackage pl part0 part1 of None \<Rightarrow> zeroPackage | Some pp \<Rightarrow> pp"
  have m: "?m = zeroPackage \<or> ?m \<in> set (packagesOf pl)"
    by (auto split: option.splits dest: lookupPackage_mem)
  have "outputOf ext pl (k # keys) = Inr (packageData ext ?m # rs)"
    using sp out by (simp add: Let_def)
  with out m show ?case by auto
qed

lemma compositeKeys_form: "\<forall>k \<in> set (compositeKeys pl). \<exists>a b. k = a @ separator # b"
  by (auto simp: compositeKeys_def)

lemma packageRecords_total:
  "\<exists>output. packageRecords ext pl = Inr output \<and> length output = length (compositeKeys pl)
     \<and> (\<forall>r \<in> set output. \<exists>m. r = packageData ext m \<and> (m = zeroPackage \<or> m \<in> set (packagesOf pl)))"
proof -
  have "\<forall>k \<in> set (sort (compositeKeys pl)). \<exists>a b. k = a @ separator # b"
    using compositeKeys_form by simp
  from outputOf_total [OF this, of ext pl] show ?thesis
    by (simp add: packageRecords_def)
qed

lemma packageData_internal:
  "packageData ext m ''internal'' = (if Internal m then Some (JBool True) else None)"
  by (simp add: packageData_def Let_def split: option.splits)

lemma zeroPackage_not_internal: "\<not> Internal zeroPackage"
  by (simp add: zeroPackage_def)

text \<open>
  Claim C7. When no package is selected (the list has no entry), getPackageOutput returns
  the bytes of the explicit empty array, and so does the handler for every query that is
  read successfully and every index from which nothing is selected, the empty index
  among them.
\<close>

theorem empty_selection_is_empty_array:
  assumes "entries pl = []"
  shows "getPackageOutput ext pl = Inr ''[]''
         \<and> (readQuery ext query = Inr f \<and> selectPackages ext f packages = pl
              \<longrightarrow> searchHandler ext query (Some packages) = Inr ''[]'')"
proof -
  from assms have "compositeKeys pl = []" by (simp add: compositeKeys_entries)
  then have "packageRecords ext pl = Inr []" by (simp add: packageRecords_def)
  then have "getPackageOutput ext pl = Inr ''[]''" by (simp add: getPackageOutput_def)
  then show ?thesis by (auto simp: searchHandler_def)
qed

lemma skipPackage_internal: "Internal p \<Longrightarrow> \<not> internal f \<Longrightarrow> skipPackage ext f p"
  by (simp add: skipPackage_def)

lemma readQuery_internal:
  assumes "readQuery ext query = Inr f"
  shows "internal f = (Get query ''internal'' \<noteq> [] \<and> fst (ParseBool (Get query ''internal'')))"
proof (cases "query = []")
  case True
  with assms show ?thesis by (auto simp: readQuery_def Get_def)
next
  case False
  show ?thesis
  proof (cases "Get query ''kibana'' = []")
    case True
    with False assms show ?thesis by (auto simp: readQuery_def Let_def split: if_splits)
  next
    case nonempty: False
    show ?thesis
    proof (cases "semver_New ext (Get query ''kibana'')")
      case None
      with False nonempty assms show ?thesis by (simp add: readQuery_def Let_def)
    next
      case (Some k)
      with False nonempty assms show ?thesis by (auto simp: readQuery_def Let_def split: if_splits)
    qed
  qed
qed

text \<open>
  Claim C8. For a query whose internal parameter is not set to true (it is absent, or
  false, or not a boolean), the internal flag is false, no selected package is internal,
  the records are produced, and no record carries the internal marker; an internal
  package can therefore be selected only when the query sets the flag.
\<close>

theorem internal_packages_hidden:
  assumes "readQuery ext query = Inr f" and "\<not> fst (ParseBool (Get query ''internal''))"
  shows "\<not> internal f
         \<and> (\<forall>p \<in> set (packagesOf (selectPackages ext f packages)). \<not> Internal p)
         \<and> (\<exists>output. packageRecords ext (selectPackages ext f packages) = Inr output
                \<and> (\<forall>r \<in> set output. r ''internal'' = None))"
proof -
  let ?pl = "selectPackages ext f packages"
  from assms have flag: "\<not> internal f" by (simp add: readQuery_internal)
  have stored: "\<forall>p \<in> set (packagesOf ?pl). \<not> Internal p"
  proof
    fix p assume "p \<in> set (packagesOf ?pl)"
    with packagesOf_selectPackages have "\<not> skipPackage ext f p" by blast
    with flag show "\<not> Internal p" using skipPackage_internal by blast
  qed
  obtain rs where out: "packageRecords ext ?pl = Inr rs"
    and recs: "\<forall>r \<in> set rs. \<exists>m. r = packageData ext m \<and> (m = zeroPackage \<or> m \<in> set (packagesOf ?pl))"
    using packageRecords_total by blast
  have "\<forall>r \<in> set rs. r ''internal'' = None"
  proof
    fix r assume "r \<in> set rs"
    with recs obtain m where r: "r = packageData ext m"
      and m: "m = zeroPackage \<or> m \<in> set (packagesOf ?pl)"
      by blast
    from m stored have "\<not> Internal m" using zeroPackage_not_internal by blast
    with r show "r ''internal'' = None" by (simp add: packageData_internal)
  qed
  with flag stored out show ?thesis by blast
qed

section \<open>Consistency of the selected list\<close>

lemma consistent_Nil: "consistent []"
  by (simp add: consistent_def)

lemma consistent_lookup:
  assumes "consistent pl" and "map_of pl n = Some versions"
  shows "distinct (map fst versions) \<and> (\<forall>(v, p) \<in> set versions. Name p = n \<and> Version p = v)"
proof -
  from assms(2) have "(n, versions) \<in> set pl" by (rule map_of_SomeD)
  with assms(1) show ?thesis by (auto simp: consistent_def)
qed

lemma consistent_update:
  assumes "consistent pl" and "distinct (map fst versions)"
    and "\<forall>(v, p) \<in> set versions. Name p = n \<and> Version p = v"
  shows "consistent (AList.update n versions pl)"
  unfolding consistent_def
proof (intro conjI ballI)
  from assms(1) show "distinct (map fst (AList.update n versions pl))"
    by (simp add: consistent_def distinct_update)
next
  fix e assume "e \<in> set (AList.update n versions pl)"
  with set_update_subset have "e = (n, versions) \<or> e \<in> set pl" by fastforce
  then show "case e of (n, versions) \<Rightarrow>
               distinct (map fst versions) \<and> (\<forall>(v, p) \<in> set versions. Name p = n \<and> Version p = v)"
  proof
    assume "e = (n, versions)"
    with assms(2,3) show ?thesis by simp
  next
    assume "e \<in> set pl"
    with assms(1) show ?thesis by (auto simp: consistent_def)
  qed
qed

lemma consistent_deletePackage: "consistent pl \<Longrightarrow> consistent (deletePackage n v pl)"
proof (cases "map_of pl n")
  case None
  assume "consistent pl"
  with None show ?thesis by (simp add: deletePackage_def)
next
  case (Some versions)
  assume c: "consistent pl"
  from consistent_lookup [OF c Some]
  have d: "distinct (map fst versions)" and k: "\<forall>(v, p) \<in> set versions. Name p = n \<and> Version p = v"
    by auto
  have d': "distinct (map fst (AList.delete v versions))" using d by (rule distinct_delete)
  have k': "\<forall>(v, p) \<in> set (AList.delete v versions). Name p = n \<and> Version p = v"
    using k set_delete_subset by fastforce
  from consistent_update [OF c d' k'] Some show ?thesis by (simp add: deletePackage_def)
qed

lemma consistent_dropOlder: "consistent pl \<Longrightarrow> consistent (dropOlder p e pl)"
  by (auto simp: dropOlder_def consistent_deletePackage split: option.splits)

lemma consistent_fold_dropOlder: "consistent pl \<Longrightarrow> consistent (fold (dropOlder p) es pl)"
  by (induction es arbitrary: pl) (auto simp: consistent_dropOlder)

lemma consistent_dropOlderVersions: "consistent pl \<Longrightarrow> consistent (dropOlderVersions p pl)"
  unfolding dropOlderVersions_def by (rule consistent_fold_dropOlder)

lemma consistent_addPackage:
  assumes c: "consistent pl"
  shows "consistent (addPackage p pl)"
proof -
  let ?old = "case map_of pl (Name p) of None \<Rightarrow> [] | Some versions \<Rightarrow> versions"
  have old: "distinct (map fst ?old) \<and> (\<forall>(v, q) \<in> set ?old. Name q = Name p \<and> Version q = v)"
  proof (cases "map_of pl (Name p)")
    case None
    then show ?thesis by simp
  next
    case (Some versions)
    from consistent_lookup [OF c Some] Some show ?thesis by simp
  qed
  then have d: "distinct (map fst (AList.update (Version p) p ?old))"
    by (simp add: distinct_update)
  have k: "\<forall>(v, q) \<in> set (AList.update (Version p) p ?old). Name q = Name p \<and> Version q = v"
  proof
    fix e assume "e \<in> set (AList.update (Version p) p ?old)"
    with set_update_subset have "e = (Version p, p) \<or> e \<in> set ?old" by fastforce
    with old show "case e of (v, q) \<Rightarrow> Name q = Name p \<and> Version q = v" by auto
  qed
  from consistent_update [OF c d k] show ?thesis by (simp add: addPackage_eq)
qed

lemma consistent_addToList: "consistent pl \<Longrightarrow> consistent (addToList ext f pl p)"
  by (simp add: addToList_def consistent_addPackage consistent_dropOlderVersions)

lemma consistent_foldl: "consistent pl \<Longrightarrow> consistent (foldl (addToList ext f) pl packages)"
  by (induction packages arbitrary: pl) (auto simp: consistent_addToList)

lemma consistent_selectPackages: "consistent (selectPackages ext f packages)"
  unfolding selectPackages_def by (rule consistent_foldl [OF consistent_Nil])

lemma consistent_lookupPackage:
  assumes "consistent pl" and "p \<in> set (packagesOf pl)"
  shows "lookupPackage pl (Name p) (Version p) = Some p"
proof -
  from assms(2) obtain n versions v where a: "(n, versions) \<in> set pl" and b: "(v, p) \<in> set versions"
    by (auto simp: set_packagesOf)
  from assms(1) a b have keys: "Name p = n" "Version p = v"
    and d1: "distinct (map fst pl)" and d2: "distinct (map fst versions)"
    by (auto simp: consistent_def)
  from d1 a have "map_of pl n = Some versions" by (rule map_of_is_SomeI)
  moreover from d2 b have "map_of versions v = Some p" by (rule map_of_is_SomeI)
  ultimately show ?thesis using keys by (simp add: lookupPackage_def)
qed

lemma Split_compositeKey:
  assumes "separator \<notin> set (Name p)" and "separator \<notin> set (Version p)"
  shows "Split (compositeKey p) separator = [Name p, Version p]"
  using assms by (simp add: compositeKey_def Split_append Split_no_sep)

lemma compositeKey_inj:
  assumes "consistent pl"
    and "\<forall>p \<in> set (packagesOf pl). separator \<notin> set (Name p) \<and> separator \<notin> set (Version p)"
  shows "inj_on compositeKey (set (packagesOf pl))"
proof (rule inj_onI)
  fix p q assume p: "p \<in> set (packagesOf pl)" and q: "q \<in> set (packagesOf pl)"
    and eq: "compositeKey p = compositeKey q"
  from assms(2) p q have "Split (compositeKey p) separator = [Name p, Version p]"
    and "Split (compositeKey q) separator = [Name q, Version q]"
    by (simp_all add: Split_compositeKey)
  with eq have n: "Name p = Name q" and v: "Version p = Version q" by simp_all
  have "Some p = lookupPackage pl (Name p) (Version p)"
    using consistent_lookupPackage [OF assms(1) p] by simp
  also have "\<dots> = lookupPackage pl (Name q) (Version q)"
    by (simp only: n v)
  also have "\<dots> = Some q"
    by (rule consistent_lookupPackage [OF assms(1) q])
  finally show "p = q" by simp
qed

lemma triples_Cons:
  "triples ((n, versions) # pl) = map (\<lambda>(v, p). (n, v, p)) versions @ triples pl"
  by (simp add: triples_def)

lemma distinct_triples:
  assumes "distinct (map fst pl)" and "\<forall>(n, versions) \<in> set pl. distinct (map fst versions)"
  shows "distinct (triples pl)"
  using assms
proof (induction pl)
  case Nil
  then show ?case by (simp add: triples_def)
next
  case (Cons e pl)
  obtain n versions where e: "e = (n, versions)" by (cases e)
  from Cons.prems e have dv: "distinct (map fst versions)" by simp
  then have "distinct versions" by (simp add: distinct_map)
  moreover have "inj_on (\<lambda>(v, p). (n, v, p)) (set versions)" by (auto intro: inj_onI)
  ultimately have first: "distinct (map (\<lambda>(v, p). (n, v, p)) versions)"
    by (simp add: distinct_map)
  from Cons have rest: "distinct (triples pl)" by simp
  from Cons.prems e have "n \<notin> fst ` set pl" by simp
  then have "set (map (\<lambda>(v, p). (n, v, p)) versions) \<inter> set (triples pl) = {}"
    by (force simp: set_triples)
  with first rest e show ?case by (simp add: triples_Cons)
qed

lemma packagesOf_map_triples: "packagesOf pl = map (\<lambda>(n, v, p). p) (triples pl)"
  by (induction pl) (auto simp: packagesOf_def triples_def)

lemma consistent_triples:
  assumes "consistent pl" and "(n, v, p) \<in> set (triples pl)"
  shows "Name p = n \<and> Version p = v"
  using assms by (auto simp: consistent_def set_triples)

lemma distinct_packagesOf:
  assumes "consistent pl"
  shows "distinct (packagesOf pl)"
proof -
  from assms have "distinct (triples pl)"
    by (intro distinct_triples) (auto simp: consistent_def)
  moreover have "inj_on (\<lambda>(n, v, p). p) (set (triples pl))"
  proof (rule inj_onI)
    fix x y assume x: "x \<in> set (triples pl)" and y: "y \<in> set (triples pl)"
      and eq: "(case x of (n, v, p) \<Rightarrow> p) = (case y of (n, v, p) \<Rightarrow> p)"
    obtain n v p where xe: "x = (n, v, p)" by (cases x)
    obtain n' v' p' where ye: "y = (n', v', p')" by (cases y)
    from x xe have "Name p = n \<and> Version p = v"
      using consistent_triples [OF assms] by blast
    moreover from y ye have "Name p' = n' \<and> Version p' = v'"
      using consistent_triples [OF assms] by blast
    moreover from eq xe ye have "p = p'" by simp
    ultimately show "x = y" using xe ye by simp
  qed
  ultimately show ?thesis by (simp add: packagesOf_map_triples distinct_map)
qed

lemma compositeKeys_packagesOf:
  assumes "consistent pl"
  shows "compositeKeys pl = map compositeKey (packagesOf pl)"
proof -
  have "map (\<lambda>(n, v, p). n @ [separator] @ v) (triples pl)
        = map (\<lambda>(n, v, p). compositeKey p) (triples pl)"
  proof (rule map_cong [OF refl])
    fix x assume x: "x \<in> set (triples pl)"
    obtain n v p where "x = (n, v, p)" by (cases x)
    with x consistent_triples [OF assms] have "x = (Name p, Version p, p)" by fastforce
    then show "(case x of (n, v, p) \<Rightarrow> n @ [separator] @ v) = (case x of (n, v, p) \<Rightarrow> compositeKey p)"
      by (simp add: compositeKey_def)
  qed
  then show ?thesis
    by (simp add: compositeKeys_triples packagesOf_map_triples split_def comp_def)
qed

lemma map_insort_key: "map f (insort_key f x xs) = insort (f x) (map f xs)"
  by (induction xs) auto

lemma map_sort_key: "map f (sort_key f xs) = sort (map f xs)"
  by (induction xs) (auto simp: map_insort_key)

lemma outputOf_compositeKeys:
  assumes "\<forall>q \<in> set qs. lookupPackage pl (Name q) (Version q) = Some q
             \<and> separator \<notin> set (Name q) \<and> separator \<notin> set (Version q)"
  shows "outputOf ext pl (map compositeKey qs) = Inr (map (packageData ext) qs)"
  using assms by (induction qs) (auto simp: Split_compositeKey)

lemma packageRecords_consistent:
  assumes c: "consistent pl"
    and nosep: "\<forall>p \<in> set (packagesOf pl). separator \<notin> set (Name p) \<and> separator \<notin> set (Version p)"
  shows "packageRecords ext pl
         = Inr (map (packageData ext) (sort_key compositeKey (packagesOf pl)))"
proof -
  have "sort (compositeKeys pl) = map compositeKey (sort_key compositeKey (packagesOf pl))"
    by (simp add: compositeKeys_packagesOf [OF c] map_sort_key)
  moreover have "\<forall>q \<in> set (sort_key compositeKey (packagesOf pl)).
      lookupPackage pl (Name q) (Version q) = Some q
      \<and> separator \<notin> set (Name q) \<and> separator \<notin> set (Version q)"
    using nosep consistent_lookupPackage [OF c] by simp
  ultimately show ?thesis
    by (simp add: packageRecords_def outputOf_compositeKeys)
qed

lemma sameMap_consistent:
  assumes "sameMap pl' pl" and "consistent pl"
  shows "consistent pl'"
  unfolding consistent_def
proof (intro conjI ballI)
  from assms(1) show "distinct (map fst pl')" by (simp add: sameMap_def)
next
  fix e assume e: "e \<in> set pl'"
  obtain n versions where en: "e = (n, versions)" by (cases e)
  from assms(1) e en have d: "distinct (map fst versions)" by (auto simp: sameMap_def)
  have "\<forall>(v, p) \<in> set versions. Name p = n \<and> Version p = v"
  proof
    fix x assume x: "x \<in> set versions"
    obtain v p where xe: "x = (v, p)" by (cases x)
    from e en x xe have "(n, v, p) \<in> set (triples pl')" by (auto simp: set_triples)
    with assms(1) have "(n, v, p) \<in> set (triples pl)" by (simp add: sameMap_def)
    with assms(2) have "Name p = n \<and> Version p = v" by (rule consistent_triples)
    with xe show "case x of (v, p) \<Rightarrow> Name p = n \<and> Version p = v" by simp
  qed
  with d en show "case e of (n, versions) \<Rightarrow>
      distinct (map fst versions) \<and> (\<forall>(v, p) \<in> set versions. Name p = n \<and> Version p = v)"
    by simp
qed

lemma sameMap_packagesOf: "sameMap pl' pl \<Longrightarrow> set (packagesOf pl') = set (packagesOf pl)"
  by (simp add: sameMap_def packagesOf_triples)

lemma sameMap_selectPackages:
  "sameMap (selectPackages ext f packages) (selectPackages ext f packages)"
  using consistent_selectPackages [of ext f packages]
  by (auto simp: sameMap_def consistent_def)

lemma sort_key_unique:
  assumes "distinct xs" and "distinct ys" and "set xs = set ys" and "inj_on f (set xs)"
  shows "sort_key f xs = sort_key f ys"
proof (rule map_sorted_distinct_set_unique [where f = f])
  from assms(3,4) show "inj_on f (set (sort_key f xs) \<union> set (sort_key f ys))" by simp
  show "sorted (map f (sort_key f xs))" by simp
  show "sorted (map f (sort_key f ys))" by simp
  from assms(1,4) show "distinct (map f (sort_key f xs))" by (simp add: distinct_map)
  from assms(2,3,4) show "distinct (map f (sort_key f ys))" by (simp add: distinct_map)
  from assms(3) show "set (sort_key f xs) = set (sort_key f ys)" by simp
qed

lemma recordKey_packageData: "recordKey (packageData ext p) = compositeKey p"
  by (simp add: recordKey_def nameOf_def versionOf_def packageData_def compositeKey_def Let_def
      split: option.splits)

text \<open>
  Claim C6. When no name and no version string holds the separator, the output has one
  record per selected package, in strictly ascending order of the composite key name,
  separator, version string of the records. The result does not depend on the order in
  which the map is iterated: every list with the same entries gives the same records and
  the same bytes, so resolving twice yields identical result sets.
\<close>

theorem records_sorted_by_composite_key:
  assumes nosep: "\<forall>p \<in> set packages. separator \<notin> set (Name p) \<and> separator \<notin> set (Version p)"
    and same: "sameMap pl (selectPackages ext f packages)"
  shows "\<exists>output ps. packageRecords ext pl = Inr output
           \<and> output = map (packageData ext) ps
           \<and> set ps = set (packagesOf (selectPackages ext f packages))
           \<and> sorted_wrt (<) (map recordKey output)
           \<and> packageRecords ext (selectPackages ext f packages) = Inr output
           \<and> getPackageOutput ext pl = getPackageOutput ext (selectPackages ext f packages)"
proof -
  let ?sel = "selectPackages ext f packages"
  let ?ps = "sort_key compositeKey (packagesOf pl)"
  have csel: "consistent ?sel" by (rule consistent_selectPackages)
  from same csel have cpl: "consistent pl" by (rule sameMap_consistent)
  from same have sets: "set (packagesOf pl) = set (packagesOf ?sel)" by (rule sameMap_packagesOf)
  have nsel: "\<forall>p \<in> set (packagesOf ?sel). separator \<notin> set (Name p) \<and> separator \<notin> set (Version p)"
    using nosep packagesOf_selectPackages [of ext f packages] by blast
  with sets have npl: "\<forall>p \<in> set (packagesOf pl). separator \<notin> set (Name p) \<and> separator \<notin> set (Version p)"
    by simp
  have inj: "inj_on compositeKey (set (packagesOf pl))"
    using cpl npl by (rule compositeKey_inj)
  have dpl: "distinct (packagesOf pl)" using cpl by (rule distinct_packagesOf)
  have dsel: "distinct (packagesOf ?sel)" using csel by (rule distinct_packagesOf)
  have r1: "packageRecords ext pl = Inr (map (packageData ext) ?ps)"
    using cpl npl by (rule packageRecords_consistent)
  have "sort_key compositeKey (packagesOf ?sel) = ?ps"
    using dsel dpl sets [symmetric] inj sort_key_unique [of "packagesOf ?sel" "packagesOf pl" compositeKey]
    by simp
  with packageRecords_consistent [OF csel nsel, of ext]
  have r2: "packageRecords ext ?sel = Inr (map (packageData ext) ?ps)" by simp
  from r1 r2 have r3: "getPackageOutput ext pl = getPackageOutput ext ?sel"
    by (simp add: getPackageOutput_def)
  have "sorted (map compositeKey ?ps)" by simp
  moreover have "distinct (map compositeKey ?ps)"
    using dpl inj by (simp add: distinct_map)
  ultimately have srt0: "sorted_wrt (<) (map compositeKey ?ps)"
    by (simp add: strict_sorted_iff)
  have keys: "map recordKey (map (packageData ext) ?ps) = map compositeKey ?ps"
    by (simp add: recordKey_packageData comp_def)
  have srt: "sorted_wrt (<) (map recordKey (map (packageData ext) ?ps))"
    unfolding keys by (rule srt0)
  have "set ?ps = set (packagesOf ?sel)" using sets by simp
  with r1 r2 r3 srt show ?thesis by blast
qed

section \<open>Packages with the same name and version\<close>

lemma lookupPackage_deletePackage:
  "lookupPackage (deletePackage n' v' pl) n v
   = (if n = n' \<and> v = v' then None else lookupPackage pl n v)"
proof (cases "map_of pl n'")
  case None
  then show ?thesis by (auto simp: deletePackage_def lookupPackage_def)
next
  case (Some versions)
  then show ?thesis
    by (auto simp: deletePackage_def lookupPackage_def update_conv' delete_conv')
qed

lemma lookupPackage_dropOlder:
  "lookupPackage (dropOlder p e pl) n v = Some q \<Longrightarrow> lookupPackage pl n v = Some q"
  by (auto simp: dropOlder_def lookupPackage_deletePackage split: option.splits if_splits)

lemma lookupPackage_fold_dropOlder:
  "lookupPackage (fold (dropOlder p) es pl) n v = Some q \<Longrightarrow> lookupPackage pl n v = Some q"
proof (induction es arbitrary: pl)
  case Nil
  then show ?case by simp
next
  case (Cons e es)
  from Cons.prems have "lookupPackage (fold (dropOlder p) es (dropOlder p e pl)) n v = Some q"
    by simp
  then have "lookupPackage (dropOlder p e pl) n v = Some q" by (rule Cons.IH)
  then show ?case by (rule lookupPackage_dropOlder)
qed

lemma lookupPackage_dropOlderVersions:
  "lookupPackage (dropOlderVersions p pl) n v = Some q \<Longrightarrow> lookupPackage pl n v = Some q"
  unfolding dropOlderVersions_def by (rule lookupPackage_fold_dropOlder)

lemma lookupPackage_addPackage_if:
  "lookupPackage (addPackage p pl) n v
   = (if n = Name p \<and> v = Version p then Some p else lookupPackage pl n v)"
  by (auto simp: addPackage_eq lookupPackage_def update_conv' split: option.splits)

lemma candidates_snoc:
  "candidates ext f n v (packages @ [p])
   = (if \<not> skipPackage ext f p \<and> Name p = n \<and> Version p = v
      then candidates ext f n v packages @ [p] else candidates ext f n v packages)"
  by (simp add: candidates_def)

lemma selectPackages_snoc:
  "selectPackages ext f (packages @ [p]) = addToList ext f (selectPackages ext f packages) p"
  by (simp add: selectPackages_def)

lemma selectPackages_holds_last:
  "lookupPackage (selectPackages ext f packages) n v = Some q
   \<Longrightarrow> candidates ext f n v packages \<noteq> [] \<and> q = last (candidates ext f n v packages)"
proof (induction packages arbitrary: q rule: rev_induct)
  case Nil
  then show ?case by (simp add: selectPackages_def lookupPackage_def)
next
  case (snoc p packages)
  let ?pl = "selectPackages ext f packages"
  show ?case
  proof (cases "skipPackage ext f p")
    case True
    with snoc.prems have "lookupPackage ?pl n v = Some q"
      by (simp add: selectPackages_snoc addToList_def)
    then have "candidates ext f n v packages \<noteq> [] \<and> q = last (candidates ext f n v packages)"
      by (rule snoc.IH)
    with True show ?thesis by (simp add: candidates_snoc)
  next
    case False
    let ?pl' = "if \<not> all f then dropOlderVersions p ?pl else ?pl"
    from False snoc.prems have look: "lookupPackage (addPackage p ?pl') n v = Some q"
      by (simp add: selectPackages_snoc addToList_def)
    show ?thesis
    proof (cases "n = Name p \<and> v = Version p")
      case True
      with look have "q = p" by (simp add: lookupPackage_addPackage_if)
      with True False show ?thesis by (simp add: candidates_snoc)
    next
      case other: False
      with look have "lookupPackage ?pl' n v = Some q"
        by (simp add: lookupPackage_addPackage_if)
      then have "lookupPackage ?pl n v = Some q"
        by (auto dest: lookupPackage_dropOlderVersions split: if_splits)
      then have "candidates ext f n v packages \<noteq> [] \<and> q = last (candidates ext f n v packages)"
        by (rule snoc.IH)
      with other show ?thesis by (auto simp: candidates_snoc)
    qed
  qed
qed

lemma selectPackages_all_holds_last:
  "all f \<Longrightarrow> candidates ext f n v packages \<noteq> []
   \<Longrightarrow> lookupPackage (selectPackages ext f packages) n v
       = Some (last (candidates ext f n v packages))"
proof (induction packages rule: rev_induct)
  case Nil
  then show ?case by (simp add: candidates_def)
next
  case (snoc p packages)
  let ?pl = "selectPackages ext f packages"
  show ?case
  proof (cases "\<not> skipPackage ext f p \<and> Name p = n \<and> Version p = v")
    case True
    with snoc.prems(1) show ?thesis
      by (simp add: selectPackages_snoc addToList_def candidates_snoc lookupPackage_addPackage_if)
  next
    case False
    with snoc.prems(2) have ne: "candidates ext f n v packages \<noteq> []"
      by (simp add: candidates_snoc)
    with snoc.IH snoc.prems(1)
    have ih: "lookupPackage ?pl n v = Some (last (candidates ext f n v packages))" by simp
    from False have cs: "candidates ext f n v (packages @ [p]) = candidates ext f n v packages"
      by (simp add: candidates_snoc)
    show ?thesis
    proof (cases "skipPackage ext f p")
      case True
      with ih cs show ?thesis by (simp add: selectPackages_snoc addToList_def)
    next
      case notskipped: False
      with False have "\<not> (n = Name p \<and> v = Version p)" by auto
      with notskipped ih cs snoc.prems(1) show ?thesis
        by (auto simp: selectPackages_snoc addToList_def lookupPackage_addPackage_if)
    qed
  qed
qed

lemma searchHandler_returns_body:
  assumes "readQuery ext query = Inr f" and "\<forall>output. MarshalIndent ext output \<noteq> None"
  shows "\<exists>body. searchHandler ext query (Some packages) = Inr body"
proof -
  obtain rs where "packageRecords ext (selectPackages ext f packages) = Inr rs"
    using packageRecords_total by blast
  moreover from assms(2) obtain bytes where "MarshalIndent ext rs = Some bytes" by auto
  ultimately show ?thesis
    using assms(1) by (simp add: searchHandler_def getPackageOutput_def)
qed

text \<open>
  Claim C2, as amended. Building the list never fails: the handler answers with a body for
  every list of packages, whenever the query is read and the encoder succeeds. Of the
  packages that pass the filters and have a given name and version string, the list never
  holds an earlier one: when it holds a package for this name and version, it is the last
  of them in the order of the loader, and with the all flag it always holds that one.
  (Without the flag a later package of the same name may remove it.)
\<close>

theorem duplicate_version_last_wins:
  "(lookupPackage (selectPackages ext f packages) n v = Some q
      \<longrightarrow> candidates ext f n v packages \<noteq> [] \<and> q = last (candidates ext f n v packages))
   \<and> (all f \<and> candidates ext f n v packages \<noteq> []
      \<longrightarrow> lookupPackage (selectPackages ext f packages) n v
          = Some (last (candidates ext f n v packages)))
   \<and> (readQuery ext query = Inr f \<and> (\<forall>output. MarshalIndent ext output \<noteq> None)
      \<longrightarrow> (\<exists>body. searchHandler ext query (Some packages) = Inr body))"
  using selectPackages_holds_last [of ext f packages n v q]
    selectPackages_all_holds_last [of f ext n v packages]
    searchHandler_returns_body [of ext query f packages]
  by blast

section \<open>Examples\<close>

text \<open>
  Claim C1. The claim says that, without the all flag, exactly one version of a name is
  listed, the newest, whatever the order of the loader. In the code a package that is
  older than a listed one is added all the same: when version 0.10.0 of mysql is supplied
  before version 0.9.0 both are listed; in the opposite order only 0.10.0 is.
\<close>

theorem newest_only_depends_on_order:
  "readQuery exampleDeps [] = Inr defaultFilter
   \<and> IsNewer (examplePackage ''mysql'' ''0.10.0'') (examplePackage ''mysql'' ''0.9.0'')
   \<and> entries (selectPackages exampleDeps defaultFilter
        [examplePackage ''mysql'' ''0.10.0'', examplePackage ''mysql'' ''0.9.0''])
      = [(''mysql'', ''0.10.0''), (''mysql'', ''0.9.0'')]
   \<and> (case packageRecords exampleDeps (selectPackages exampleDeps defaultFilter
          [examplePackage ''mysql'' ''0.10.0'', examplePackage ''mysql'' ''0.9.0'']) of
         Inl err \<Rightarrow> []
       | Inr output \<Rightarrow> map (\<lambda>r. (nameOf r, versionOf r)) output)
      = [(''mysql'', ''0.10.0''), (''mysql'', ''0.9.0'')]
   \<and> entries (selectPackages exampleDeps defaultFilter
        [examplePackage ''mysql'' ''0.9.0'', examplePackage ''mysql'' ''0.10.0''])
      = [(''mysql'', ''0.10.0'')]"
  by code_simp

text \<open>
  Claim C3. The claim says that a name filter alone makes the handler return every
  version of the named package. In the code the older versions are dropped whenever the
  all flag is false, with or without a name filter: for the versions 1.0.0 and 1.2.0 of
  mysql and the query package=mysql only 1.2.0 is listed.
\<close>

theorem name_filter_still_collapses:
  "readQuery exampleDeps [(''package'', [''mysql''])]
     = Inr (defaultFilter\<lparr>packageQuery := ''mysql''\<rparr>)
   \<and> entries (selectPackages exampleDeps (defaultFilter\<lparr>packageQuery := ''mysql''\<rparr>)
        [examplePackage ''mysql'' ''1.0.0'', examplePackage ''mysql'' ''1.2.0'',
         examplePackage ''nginx'' ''2.0.0''])
      = [(''mysql'', ''1.2.0'')]
   \<and> (case packageRecords exampleDeps
          (selectPackages exampleDeps (defaultFilter\<lparr>packageQuery := ''mysql''\<rparr>)
            [examplePackage ''mysql'' ''1.0.0'', examplePackage ''mysql'' ''1.2.0'',
             examplePackage ''nginx'' ''2.0.0'']) of
         Inl err \<Rightarrow> []
       | Inr output \<Rightarrow> map (\<lambda>r. (nameOf r, versionOf r)) output)
      = [(''mysql'', ''1.2.0'')]"
  by code_simp

text \<open>
  Claim C2, counterexample. Two packages with the same name and version and different
  descriptions: the handler answers with a result set, not with an error, and the list
  holds the second package only, with and without the all flag.
\<close>

theorem duplicate_version_not_rejected:
  "searchHandler exampleDeps []
     (Some [(examplePackage ''mysql'' ''1.0.0'')\<lparr>Description := ''first''\<rparr>,
            (examplePackage ''mysql'' ''1.0.0'')\<lparr>Description := ''second''\<rparr>])
     = Inr ''mysql ''
   \<and> lookupPackage (selectPackages exampleDeps defaultFilter
         [(examplePackage ''mysql'' ''1.0.0'')\<lparr>Description := ''first''\<rparr>,
          (examplePackage ''mysql'' ''1.0.0'')\<lparr>Description := ''second''\<rparr>])
       ''mysql'' ''1.0.0''
     = Some ((examplePackage ''mysql'' ''1.0.0'')\<lparr>Description := ''second''\<rparr>)
   \<and> triples (selectPackages exampleDeps (defaultFilter\<lparr>all := True\<rparr>)
         [(examplePackage ''mysql'' ''1.0.0'')\<lparr>Description := ''first''\<rparr>,
          (examplePackage ''mysql'' ''1.0.0'')\<lparr>Description := ''second''\<rparr>])
     = [(''mysql'', ''1.0.0'', (examplePackage ''mysql'' ''1.0.0'')\<lparr>Description := ''second''\<rparr>)]"
  by code_simp

theorem duplicate_version_last_wins_witness:
  "lookupPackage (selectPackages exampleDeps defaultFilter
      [(examplePackage ''mysql'' ''1.0.0'')\<lparr>Description := ''first''\<rparr>,
       examplePackage ''nginx'' ''2.0.0'',
       (examplePackage ''mysql'' ''1.0.0'')\<lparr>Description := ''second''\<rparr>])
     ''mysql'' ''1.0.0''
     = Some ((examplePackage ''mysql'' ''1.0.0'')\<lparr>Description := ''second''\<rparr>)
   \<and> last (candidates exampleDeps defaultFilter ''mysql'' ''1.0.0''
      [(examplePackage ''mysql'' ''1.0.0'')\<lparr>Description := ''first''\<rparr>,
       examplePackage ''nginx'' ''2.0.0'',
       (examplePackage ''mysql'' ''1.0.0'')\<lparr>Description := ''second''\<rparr>])
     = (examplePackage ''mysql'' ''1.0.0'')\<lparr>Description := ''second''\<rparr>
   \<and> lookupPackage (selectPackages exampleDeps (defaultFilter\<lparr>all := True\<rparr>)
      [(examplePackage ''mysql'' ''1.0.0'')\<lparr>Description := ''first''\<rparr>,
       (examplePackage ''mysql'' ''1.0.0'')\<lparr>Description := ''second''\<rparr>,
       examplePackage ''mysql'' ''2.0.0''])
     ''mysql'' ''1.0.0''
     = Some ((examplePackage ''mysql'' ''1.0.0'')\<lparr>Description := ''second''\<rparr>)
   \<and> lookupPackage (selectPackages exampleDeps defaultFilter
      [(examplePackage ''mysql'' ''1.0.0'')\<lparr>Description := ''first''\<rparr>,
       (examplePackage ''mysql'' ''1.0.0'')\<lparr>Description := ''second''\<rparr>,
       examplePackage ''mysql'' ''2.0.0''])
     ''mysql'' ''1.0.0'' = None
   \<and> (\<exists>body. searchHandler exampleDeps []
        (Some [(examplePackage ''mysql'' ''1.0.0'')\<lparr>Description := ''first''\<rparr>,
               (examplePackage ''mysql'' ''1.0.0'')\<lparr>Description := ''second''\<rparr>,
               examplePackage ''mysql'' ''2.0.0'']) = Inr body)"
proof -
  let ?first = "(examplePackage ''mysql'' ''1.0.0'')\<lparr>Description := ''first''\<rparr>"
  let ?second = "(examplePackage ''mysql'' ''1.0.0'')\<lparr>Description := ''second''\<rparr>"
  let ?a = "[?first, examplePackage ''nginx'' ''2.0.0'', ?second]"
  let ?b = "[?first, ?second, examplePackage ''mysql'' ''2.0.0'']"
  have a: "lookupPackage (selectPackages exampleDeps defaultFilter ?a) ''mysql'' ''1.0.0''
           = Some ?second" by code_simp
  have b: "all (defaultFilter\<lparr>all := True\<rparr>)" by (simp add: defaultFilter_def)
  have c: "candidates exampleDeps (defaultFilter\<lparr>all := True\<rparr>) ''mysql'' ''1.0.0'' ?b
           = [?first, ?second]" by code_simp
  have d: "lookupPackage (selectPackages exampleDeps defaultFilter ?b) ''mysql'' ''1.0.0'' = None"
    by code_simp
  have e: "readQuery exampleDeps [] = Inr defaultFilter" by code_simp
  have g: "\<forall>output. MarshalIndent exampleDeps output \<noteq> None"
    by (simp add: exampleDeps_def)
  from duplicate_version_last_wins [of exampleDeps defaultFilter ?a "''mysql''" "''1.0.0''" ?second] a
  have 1: "last (candidates exampleDeps defaultFilter ''mysql'' ''1.0.0'' ?a) = ?second"
    by simp
  from duplicate_version_last_wins [of exampleDeps "defaultFilter\<lparr>all := True\<rparr>" ?b
      "''mysql''" "''1.0.0''"] b c
  have 2: "lookupPackage (selectPackages exampleDeps (defaultFilter\<lparr>all := True\<rparr>) ?b)
             ''mysql'' ''1.0.0'' = Some ?second"
    by simp
  from duplicate_version_last_wins [of exampleDeps defaultFilter ?b _ _ _ "[]"] e g
  have 3: "\<exists>body. searchHandler exampleDeps [] (Some ?b) = Inr body"
    by blast
  from a 1 2 d 3 show ?thesis by blast
qed

theorem empty_selection_is_empty_array_witness:
  "entries (selectPackages exampleDeps (defaultFilter\<lparr>category := ''metrics''\<rparr>)
      [examplePackage ''mysql'' ''1.0.0'']) = []
   \<and> searchHandler exampleDeps [(''category'', [''metrics''])]
        (Some [examplePackage ''mysql'' ''1.0.0'']) = Inr ''[]''
   \<and> searchHandler exampleDeps [] (Some []) = Inr ''[]''"
proof -
  let ?f = "defaultFilter\<lparr>category := ''metrics''\<rparr>"
  let ?pl = "selectPackages exampleDeps ?f [examplePackage ''mysql'' ''1.0.0'']"
  have a: "entries ?pl = []" by code_simp
  have b: "readQuery exampleDeps [(''category'', [''metrics''])] = Inr ?f" by code_simp
  have c: "entries (selectPackages exampleDeps defaultFilter []) = []" by code_simp
  have d: "readQuery exampleDeps [] = Inr defaultFilter" by code_simp
  from empty_selection_is_empty_array [OF a, of exampleDeps "[(''category'', [''metrics''])]" ?f
      "[examplePackage ''mysql'' ''1.0.0'']"] b
  have "searchHandler exampleDeps [(''category'', [''metrics''])]
          (Some [examplePackage ''mysql'' ''1.0.0'']) = Inr ''[]''" by simp
  moreover from empty_selection_is_empty_array [OF c, of exampleDeps "[]" defaultFilter "[]"] d
  have "searchHandler exampleDeps [] (Some []) = Inr ''[]''" by simp
  ultimately show ?thesis using a by simp
qed

theorem internal_packages_hidden_witness:
  "readQuery exampleDeps [(''internal'', [''false''])] = Inr defaultFilter
   \<and> \<not> internal defaultFilter
   \<and> map Name (packagesOf (selectPackages exampleDeps defaultFilter
        [(examplePackage ''secret'' ''1.0.0'')\<lparr>Internal := True\<rparr>,
         examplePackage ''nginx'' ''2.0.0'']))
     = [''nginx'']
   \<and> (\<exists>output. packageRecords exampleDeps (selectPackages exampleDeps defaultFilter
        [(examplePackage ''secret'' ''1.0.0'')\<lparr>Internal := True\<rparr>,
         examplePackage ''nginx'' ''2.0.0''])
          = Inr output \<and> (\<forall>r \<in> set output. r ''internal'' = None))"
proof -
  have a: "readQuery exampleDeps [(''internal'', [''false''])] = Inr defaultFilter"
    by code_simp
  have b: "\<not> fst (ParseBool (Get [(''internal'', [''false''])] ''internal''))"
    by code_simp
  have c: "map Name (packagesOf (selectPackages exampleDeps defaultFilter
        [(examplePackage ''secret'' ''1.0.0'')\<lparr>Internal := True\<rparr>,
         examplePackage ''nginx'' ''2.0.0'']))
     = [''nginx'']" by code_simp
  show ?thesis
    using a c internal_packages_hidden [OF a b, of
        "[(examplePackage ''secret'' ''1.0.0'')\<lparr>Internal := True\<rparr>,
          examplePackage ''nginx'' ''2.0.0'']"]
    by blast
qed

theorem records_sorted_by_composite_key_witness:
  "\<exists>output ps. packageRecords exampleDeps
           [(''nginx'', [(''2.0.0'', examplePackage ''nginx'' ''2.0.0'')]),
            (''mysql'', [(''1.2.0'', examplePackage ''mysql'' ''1.2.0''),
                         (''1.0.0'', examplePackage ''mysql'' ''1.0.0'')])]
          = Inr output
      \<and> output = map (packageData exampleDeps) ps
      \<and> set ps = set (packagesOf (selectPackages exampleDeps (defaultFilter\<lparr>all := True\<rparr>)
                    [examplePackage ''mysql'' ''1.0.0'', examplePackage ''mysql'' ''1.2.0'',
                     examplePackage ''nginx'' ''2.0.0'']))
      \<and> sorted_wrt (<) (map recordKey output)
      \<and> packageRecords exampleDeps (selectPackages exampleDeps (defaultFilter\<lparr>all := True\<rparr>)
                    [examplePackage ''mysql'' ''1.0.0'', examplePackage ''mysql'' ''1.2.0'',
                     examplePackage ''nginx'' ''2.0.0''])
          = Inr output
      \<and> getPackageOutput exampleDeps
           [(''nginx'', [(''2.0.0'', examplePackage ''nginx'' ''2.0.0'')]),
            (''mysql'', [(''1.2.0'', examplePackage ''mysql'' ''1.2.0''),
                         (''1.0.0'', examplePackage ''mysql'' ''1.0.0'')])]
          = getPackageOutput exampleDeps
              (selectPackages exampleDeps (defaultFilter\<lparr>all := True\<rparr>)
                    [examplePackage ''mysql'' ''1.0.0'', examplePackage ''mysql'' ''1.2.0'',
                     examplePackage ''nginx'' ''2.0.0''])"
proof -
  let ?packages = "[examplePackage ''mysql'' ''1.0.0'', examplePackage ''mysql'' ''1.2.0'',
                     examplePackage ''nginx'' ''2.0.0'']"
  have a: "\<forall>p \<in> set ?packages. separator \<notin> set (Name p) \<and> separator \<notin> set (Version p)"
    by code_simp
  have b: "sameMap [(''nginx'', [(''2.0.0'', examplePackage ''nginx'' ''2.0.0'')]),
            (''mysql'', [(''1.2.0'', examplePackage ''mysql'' ''1.2.0''),
                         (''1.0.0'', examplePackage ''mysql'' ''1.0.0'')])]
        (selectPackages exampleDeps (defaultFilter\<lparr>all := True\<rparr>) ?packages)"
    by code_simp
  show ?thesis
    using records_sorted_by_composite_key [OF a b] by simp
qed

end
